theory Spec2Isabelle
  imports Complex_Main
begin

section \<open>The Sentinel guard agent: presence tracking and escalation\<close>

text \<open>
  A shallow embedding of the stateful core of \<^verbatim>\<open>src/sentinel.py\<close> (class
  \<^verbatim>\<open>SentinelAgent\<close>): the four intruder-detection attributes set in
  \<^verbatim>\<open>__init__\<close>, the methods \<^verbatim>\<open>speak\<close>, \<^verbatim>\<open>handle_intruder_escalation\<close>,
  \<^verbatim>\<open>reset_intruder_state\<close> and the monitoring loop of \<^verbatim>\<open>start_guard_mode\<close>.

  Modelling decisions.
  \<^item> Mutation of \<^verbatim>\<open>self\<close> is explicit state passing over the record \<open>SentinelAgent\<close>.
  \<^item> Everything the code sends to the outside (console, speech engine, image file, window,
    camera) is returned as a list of \<open>effect\<close> events, in program order.
  \<^item> Wall-clock readings \<^verbatim>\<open>time.time()\<close> are inputs, given by the real numbers that the
    doubles stand for. Python's \<^verbatim>\<open>x - y\<close> on two doubles is the exact difference rounded to a
    double. The rounding is the parameter \<open>rnd\<close> of every function that subtracts: the code
    computes \<open>rnd (x - y)\<close>. The comparisons with the integers 3, 5 and 10 are exact in Python.
  \<^item> The face library is external. For each face found in a frame the model receives the list
    \<^verbatim>\<open>matches\<close> that \<^verbatim>\<open>face_recognition.compare_faces\<close> returned for it.
  \<^item> Python exceptions are values of \<open>py_error\<close>; a raising call returns \<open>Inl\<close>.
\<close>

subsection \<open>Data\<close>

type_synonym timestamp = real

record SentinelAgent =
  known_face_names :: "string list"
  intruder_detected :: bool
  last_warning_time :: "timestamp option"
  escalation_level :: int
  unrecognized_face_start_time :: "timestamp option"

text \<open>\<^verbatim>\<open>self.GRACE_PERIOD_SECONDS = 3\<close> is assigned once in \<^verbatim>\<open>__init__\<close> and never again.\<close>

definition GRACE_PERIOD_SECONDS :: real where
  "GRACE_PERIOD_SECONDS = 3"

text \<open>
  The state \<^verbatim>\<open>__init__\<close> leaves behind; the names come from \<^verbatim>\<open>load_trusted_faces\<close>,
  which reads the file system and is taken as given.
\<close>

definition init_agent :: "string list \<Rightarrow> SentinelAgent" where
  "init_agent names =
     \<lparr> known_face_names = names,
       intruder_detected = False,
       last_warning_time = None,
       escalation_level = 0,
       unrecognized_face_start_time = None \<rparr>"

datatype py_error = TypeError | IndexError

datatype 'f effect =
    Print string
  | Say string
  | Imwrite string 'f
  | Imshow 'f
  | Release
  | DestroyAllWindows

text \<open>
  One iteration of the monitoring loop sees a frame, one \<^verbatim>\<open>matches\<close> list per face in it,
  and up to two clock readings: \<open>clock_guard\<close> is \<^verbatim>\<open>time.time()\<close> in
  \<^verbatim>\<open>start_guard_mode\<close> (line 139 or line 140, never both), \<open>clock_escalation\<close> is
  \<^verbatim>\<open>current_time\<close> of \<^verbatim>\<open>handle_intruder_escalation\<close> (line 64).
\<close>

record 'f tick_input =
  frame :: 'f
  face_matches :: "bool list list"
  clock_guard :: timestamp
  clock_escalation :: timestamp

text \<open>
  The code returns no classification of a tick; the tag records which branch of lines
  136 to 148 ran.
\<close>

datatype PresenceDecision = TrustedPresent | UnknownPending | IntruderConfirmed | NoFaces

subsection \<open>Formatting the snapshot path\<close>

text \<open>\<^verbatim>\<open>int(current_time)\<close> truncates towards zero; the f-string prints it in decimal.\<close>

definition py_int :: "real \<Rightarrow> int" where
  "py_int x = (if 0 \<le> x then \<lfloor>x\<rfloor> else \<lceil>x\<rceil>)"

definition digit_char :: "nat \<Rightarrow> char" where
  "digit_char d = ''0123456789'' ! d"

function show_nat :: "nat \<Rightarrow> string" where
  "show_nat n = (if n < 10 then [digit_char n] else show_nat (n div 10) @ [digit_char (n mod 10)])"
  by pat_completeness auto
termination
  by (relation "measure (\<lambda>n. n)") auto

declare show_nat.simps [simp del]

definition py_str_int :: "int \<Rightarrow> string" where
  "py_str_int i = (if i < 0 then CHR ''-'' # show_nat (nat (- i)) else show_nat (nat i))"

definition snapshot_path :: "timestamp \<Rightarrow> string" where
  "snapshot_path current_time = ''intruder_'' @ py_str_int (py_int current_time) @ ''.jpg''"

subsection \<open>The methods\<close>

definition speak :: "string \<Rightarrow> 'f effect list" where
  "speak msg = [Print (''SENTINEL: '' @ msg), Say msg]"

definition MSG_LEVEL0 :: string where
  "MSG_LEVEL0 = ''Hello? Can I help you? My owner isn't here right now.''"

definition MSG_LEVEL1 :: string where
  "MSG_LEVEL1 = ''You don't seem to be on the trusted list. This area is being monitored.''"

definition MSG_LEVEL2 :: string where
  "MSG_LEVEL2 = ''You are not authorized to be here. Your presence is being recorded. Please leave immediately.''"

definition MSG_LEVEL3 :: string where
  "MSG_LEVEL3 = ''Warning! Intrusion detected. If you do not vacate the premises, I will have to take further action.''"

text \<open>
  \<^verbatim>\<open>handle_intruder_escalation\<close>. At a level other than 0 the subtraction
  \<^verbatim>\<open>current_time - self.last_warning_time\<close> runs before any test; on \<^verbatim>\<open>None\<close> it raises
  \<^verbatim>\<open>TypeError\<close>.
\<close>

definition handle_intruder_escalation ::
  "(real \<Rightarrow> real) \<Rightarrow> SentinelAgent \<Rightarrow> 'f \<Rightarrow> timestamp \<Rightarrow>
     py_error + (SentinelAgent \<times> 'f effect list)" where
  "handle_intruder_escalation rnd a frm current_time =
     (if escalation_level a = 0 then
        Inr (a\<lparr>escalation_level := 1, last_warning_time := Some current_time\<rparr>,
             speak MSG_LEVEL0)
      else
        (case last_warning_time a of
           None \<Rightarrow> Inl TypeError
         | Some w \<Rightarrow>
             (let time_since_last_warning = rnd (current_time - w) in
              if escalation_level a = 1 \<and> time_since_last_warning > 10 then
                Inr (a\<lparr>escalation_level := 2, last_warning_time := Some current_time\<rparr>,
                     speak MSG_LEVEL1)
              else if escalation_level a = 2 \<and> time_since_last_warning > 10 then
                Inr (a\<lparr>escalation_level := 3, last_warning_time := Some current_time\<rparr>,
                     speak MSG_LEVEL2 @
                     [Imwrite (snapshot_path current_time) frm,
                      Print (''Intruder snapshot saved to '' @ snapshot_path current_time)])
              else if escalation_level a = 3 \<and> time_since_last_warning > 5 then
                Inr (a\<lparr>escalation_level := 4, last_warning_time := Some current_time\<rparr>,
                     speak MSG_LEVEL3)
              else Inr (a, []))))"

definition reset_intruder_state :: "SentinelAgent \<Rightarrow> SentinelAgent \<times> 'f effect list" where
  "reset_intruder_state a =
     (a\<lparr>intruder_detected := False,
        unrecognized_face_start_time := None,
        escalation_level := 0,
        last_warning_time := None\<rparr>,
      if intruder_detected a
      then [Print ''Threat neutralized or trusted person identified. Resetting state.'']
      else [])"

text \<open>\<^verbatim>\<open>matches.index(True)\<close>, called only after \<^verbatim>\<open>True in matches\<close>.\<close>

fun index_True :: "bool list \<Rightarrow> nat" where
  "index_True [] = 0"
| "index_True (m # ms) = (if m then 0 else Suc (index_True ms))"

text \<open>
  The \<^verbatim>\<open>for face_encoding in face_encodings\<close> loop (lines 125 to 133): it stops at the first
  face with a match, prints the name and resets. The result carries
  \<^verbatim>\<open>is_trusted_person_present\<close>. Reading \<^verbatim>\<open>known_face_names\<close> past its end raises
  \<^verbatim>\<open>IndexError\<close>.
\<close>

fun scan_faces ::
  "SentinelAgent \<Rightarrow> bool list list \<Rightarrow> py_error + (bool \<times> SentinelAgent \<times> 'f effect list)" where
  "scan_faces a [] = Inr (False, a, [])"
| "scan_faces a (matches # rest) =
     (if True \<in> set matches then
        (let first_match_index = index_True matches in
         if first_match_index < length (known_face_names a) then
           (let name = known_face_names a ! first_match_index;
                (a', out) = reset_intruder_state a
            in Inr (True, a', Print (''Recognized: '' @ name) # out))
         else Inl IndexError)
      else scan_faces a rest)"

text \<open>The body of the \<^verbatim>\<open>while True\<close> loop from line 124 to line 148.\<close>

definition tick ::
  "(real \<Rightarrow> real) \<Rightarrow> SentinelAgent \<Rightarrow> 'f tick_input \<Rightarrow>
     py_error + (SentinelAgent \<times> PresenceDecision \<times> 'f effect list)" where
  "tick rnd a inp =
     (case scan_faces a (face_matches inp) of
        Inl e \<Rightarrow> Inl e
      | Inr (is_trusted_person_present, a1, out1) \<Rightarrow>
          if \<not> is_trusted_person_present \<and> face_matches inp \<noteq> [] then
            (case unrecognized_face_start_time a1 of
               None \<Rightarrow>
                 Inr (a1\<lparr>unrecognized_face_start_time := Some (clock_guard inp)\<rparr>,
                      UnknownPending, out1)
             | Some since \<Rightarrow>
                 if rnd (clock_guard inp - since) > GRACE_PERIOD_SECONDS then
                   (case handle_intruder_escalation rnd (a1\<lparr>intruder_detected := True\<rparr>)
                           (frame inp) (clock_escalation inp) of
                      Inl e \<Rightarrow> Inl e
                    | Inr (a2, out2) \<Rightarrow> Inr (a2, IntruderConfirmed, out1 @ out2))
                 else Inr (a1, UnknownPending, out1))
          else
            (let a2 = a1\<lparr>unrecognized_face_start_time := None\<rparr> in
             if is_trusted_person_present then
               (let (a3, out3) = reset_intruder_state a2
                in Inr (a3, TrustedPresent, out1 @ out3))
             else Inr (a2, NoFaces, out1)))"

text \<open>A sequence of loop bodies, one after the other, on the same agent.\<close>

fun run_ticks ::
  "(real \<Rightarrow> real) \<Rightarrow> SentinelAgent \<Rightarrow> 'f tick_input list \<Rightarrow>
     py_error + (SentinelAgent \<times> 'f effect list)" where
  "run_ticks rnd a [] = Inr (a, [])"
| "run_ticks rnd a (inp # rest) =
     (case tick rnd a inp of
        Inl e \<Rightarrow> Inl e
      | Inr (a1, d, out1) \<Rightarrow>
          (case run_ticks rnd a1 rest of
             Inl e \<Rightarrow> Inl e
           | Inr (a2, out2) \<Rightarrow> Inr (a2, out1 @ out2)))"

text \<open>
  The monitoring loop of \<^verbatim>\<open>start_guard_mode\<close> (lines 111 to 155). The camera is the list of
  what it will deliver: each element is a frame that was read (\<^verbatim>\<open>ret\<close> true) with its tick
  input, paired with whether \<^verbatim>\<open>cv2.waitKey\<close> reports the key q after it. When the list is
  used up, \<^verbatim>\<open>video_capture.read()\<close> returns \<^verbatim>\<open>ret\<close> false and the loop breaks.
\<close>

fun guard_loop ::
  "(real \<Rightarrow> real) \<Rightarrow> SentinelAgent \<Rightarrow> ('f tick_input \<times> bool) list \<Rightarrow>
     py_error + (SentinelAgent \<times> 'f effect list)" where
  "guard_loop rnd a [] = Inr (a, [])"
| "guard_loop rnd a ((inp, key_q) # rest) =
     (case tick rnd a inp of
        Inl e \<Rightarrow> Inl e
      | Inr (a1, d, out1) \<Rightarrow>
          if key_q then Inr (a1, out1 @ [Imshow (frame inp)])
          else
            (case guard_loop rnd a1 rest of
               Inl e \<Rightarrow> Inl e
             | Inr (a2, out2) \<Rightarrow> Inr (a2, out1 @ [Imshow (frame inp)] @ out2)))"

text \<open>\<^verbatim>\<open>start_guard_mode\<close>; \<open>opened\<close> is \<^verbatim>\<open>video_capture.isOpened()\<close>.\<close>

definition start_guard_mode ::
  "(real \<Rightarrow> real) \<Rightarrow> SentinelAgent \<Rightarrow> bool \<Rightarrow> ('f tick_input \<times> bool) list \<Rightarrow>
     py_error + (SentinelAgent \<times> 'f effect list)" where
  "start_guard_mode rnd a opened camera =
     (if \<not> opened then
        Inr (a, speak ''Guard mode activated. I am now monitoring the room.'' @
                speak ''Error: Could not access the webcam.'')
      else
        (case guard_loop rnd a camera of
           Inl e \<Rightarrow> Inl e
         | Inr (a', out) \<Rightarrow>
             Inr (a', speak ''Guard mode activated. I am now monitoring the room.'' @ out @
                      [Release, DestroyAllWindows] @ speak ''Guard mode deactivated.'')))"

subsection \<open>Vocabulary of the properties\<close>

text \<open>
  What the properties use of the rounding of doubles: rounding to nearest is monotone, and it
  leaves a number that is a double as it is; 3, 5 and 10 are doubles.
\<close>

definition float_rounding :: "(real \<Rightarrow> real) \<Rightarrow> bool" where
  "float_rounding rnd \<longleftrightarrow>
     (\<forall>x y. x \<le> y \<longrightarrow> rnd x \<le> rnd y) \<and> rnd 3 = 3 \<and> rnd 5 = 5 \<and> rnd 10 = 10"

text \<open>
  A frame has a trusted face when \<^verbatim>\<open>True in matches\<close> holds for one of its faces.
\<close>

definition has_match :: "bool list list \<Rightarrow> bool" where
  "has_match fs \<longleftrightarrow> (\<exists>m \<in> set fs. True \<in> set m)"

text \<open>
  What \<^verbatim>\<open>compare_faces\<close> promises: one answer per known encoding, and \<^verbatim>\<open>load_trusted_faces\<close>
  appends one name per encoding.
\<close>

definition names_cover :: "SentinelAgent \<Rightarrow> bool list list \<Rightarrow> bool" where
  "names_cover a fs \<longleftrightarrow> (\<forall>m \<in> set fs. length m = length (known_face_names a))"

text \<open>The messages handed to the speech engine, and the paths of the image files written.\<close>

fun says :: "'f effect list \<Rightarrow> string list" where
  "says [] = []"
| "says (Say msg # es) = msg # says es"
| "says (e # es) = says es"

fun snapshots :: "'f effect list \<Rightarrow> string list" where
  "snapshots [] = []"
| "snapshots (Imwrite path frm # es) = path # snapshots es"
| "snapshots (e # es) = snapshots es"

text \<open>The shape of the escalation attributes that every run keeps.\<close>

definition ladder_ok :: "SentinelAgent \<Rightarrow> bool" where
  "ladder_ok a \<longleftrightarrow>
     0 \<le> escalation_level a \<and> escalation_level a \<le> 4 \<and>
     (escalation_level a \<noteq> 0 \<longrightarrow> last_warning_time a \<noteq> None)"

text \<open>The four attributes as \<^verbatim>\<open>reset_intruder_state\<close> leaves them.\<close>

abbreviation cleared :: "SentinelAgent \<Rightarrow> SentinelAgent" where
  "cleared a \<equiv>
     a\<lparr>intruder_detected := False,
       unrecognized_face_start_time := None,
       escalation_level := 0,
       last_warning_time := None\<rparr>"

subsection \<open>Concrete scenes\<close>

text \<open>
  The clocks of the scenes read whole seconds below 100. The difference of two such readings
  is a small integer, which is a double, so the subtraction of the code returns it unchanged:
  on these scenes the rounding is \<open>exact\<close>.
\<close>

definition exact :: "real \<Rightarrow> real" where
  "exact d = d"

text \<open>
  An agent that knows one face, and frames with one unknown face, with no face, and with an
  unknown face followed by the owner's; both clocks read \<open>t\<close>.
\<close>

definition unknown_face_at :: "timestamp \<Rightarrow> nat tick_input" where
  "unknown_face_at t =
     \<lparr>frame = 0, face_matches = [[False]], clock_guard = t, clock_escalation = t\<rparr>"

definition no_face_at :: "timestamp \<Rightarrow> nat tick_input" where
  "no_face_at t = \<lparr>frame = 0, face_matches = [], clock_guard = t, clock_escalation = t\<rparr>"

definition owner_face_at :: "timestamp \<Rightarrow> nat tick_input" where
  "owner_face_at t =
     \<lparr>frame = 0, face_matches = [[False], [True]], clock_guard = t, clock_escalation = t\<rparr>"

text \<open>
  The agent after it first saw an unknown face at \<open>since\<close>, and the agent in the middle of an
  intrusion at level \<open>lvl\<close> whose last warning was spoken at \<open>w\<close>.
\<close>

definition watched :: "timestamp \<Rightarrow> SentinelAgent" where
  "watched since = (init_agent [''owner''])\<lparr>unrecognized_face_start_time := Some since\<rparr>"

definition intruded :: "int \<Rightarrow> timestamp \<Rightarrow> SentinelAgent" where
  "intruded lvl w =
     \<lparr>known_face_names = [''owner''], intruder_detected = True, last_warning_time = Some w,
      escalation_level = lvl, unrecognized_face_start_time = Some 0\<rparr>"

text \<open>The warnings of the ladder, in the order of the levels that speak them.\<close>

definition ladder_messages :: "string list" where
  "ladder_messages = [MSG_LEVEL0, MSG_LEVEL1, MSG_LEVEL2, MSG_LEVEL3]"


text \<open>
  An unknown face that stays for forty seconds: the timer starts at 0, the intrusion is
  confirmed at 4, and the warnings follow at 15, 26 and 32.
\<close>

definition full_episode :: "nat tick_input list" where
  "full_episode =
     [unknown_face_at 0, unknown_face_at 4, unknown_face_at 10, unknown_face_at 15,
      unknown_face_at 26, unknown_face_at 32, unknown_face_at 40]"

text \<open>
  The frames whose loop body ran in a guard cycle: all up to and including the first one
  after which the key q was seen.
\<close>

fun processed :: "('f tick_input \<times> bool) list \<Rightarrow> 'f tick_input list" where
  "processed [] = []"
| "processed ((inp, key_q) # rest) = (if key_q then [inp] else inp # processed rest)"

text \<open>
  The effects of a guard cycle apart from the display of the frames, and the frames displayed.
\<close>

fun without_imshow :: "'f effect list \<Rightarrow> 'f effect list" where
  "without_imshow [] = []"
| "without_imshow (Imshow frm # es) = without_imshow es"
| "without_imshow (e # es) = e # without_imshow es"

fun shown :: "'f effect list \<Rightarrow> 'f list" where
  "shown [] = []"
| "shown (Imshow frm # es) = frm # shown es"
| "shown (e # es) = shown es"

section \<open>Properties\<close>

subsection \<open>Rounding\<close>

lemma float_rounding_exact: "float_rounding exact"
  by (simp add: float_rounding_def exact_def)

lemma float_rounding_below:
  assumes "float_rounding rnd" and "d \<le> 3"
  shows "rnd d \<le> 3"
proof -
  from assms(1) have mono: "\<And>x y. x \<le> y \<Longrightarrow> rnd x \<le> rnd y" and kept: "rnd 3 = 3"
    by (auto simp: float_rounding_def)
  from mono [OF assms(2)] kept show ?thesis by simp
qed

lemma float_rounding_above:
  assumes "float_rounding rnd"
  shows "rnd d > 3 \<Longrightarrow> d > 3" and "rnd d > 5 \<Longrightarrow> d > 5" and "rnd d > 10 \<Longrightarrow> d > 10"
proof -
  have mono: "\<And>x y. x \<le> y \<Longrightarrow> rnd x \<le> rnd y"
    and kept: "rnd 3 = 3" "rnd 5 = 5" "rnd 10 = 10"
    using assms by (auto simp: float_rounding_def)
  show "rnd d > 3 \<Longrightarrow> d > 3" using mono [of d 3] kept by (cases "d \<le> 3") auto
  show "rnd d > 5 \<Longrightarrow> d > 5" using mono [of d 5] kept by (cases "d \<le> 5") auto
  show "rnd d > 10 \<Longrightarrow> d > 10" using mono [of d 10] kept by (cases "d \<le> 10") auto
qed

subsection \<open>Effects and the scan of the faces\<close>

lemma says_append: "says (xs @ ys) = says xs @ says ys"
  by (induction xs rule: says.induct) auto

lemma snapshots_append: "snapshots (xs @ ys) = snapshots xs @ snapshots ys"
  by (induction xs rule: snapshots.induct) auto

lemma says_speak: "says (speak msg) = [msg]"
  by (simp add: speak_def)

lemma snapshots_speak: "snapshots (speak msg) = []"
  by (simp add: speak_def)

lemma index_True_less: "True \<in> set m \<Longrightarrow> index_True m < length m"
  by (induction m) auto

lemma scan_faces_no_match:
  "\<not> has_match fs \<Longrightarrow> scan_faces a fs = Inr (False, a, [])"
  by (induction fs) (auto simp: has_match_def)

lemma scan_faces_match_cases:
  "has_match fs \<Longrightarrow>
     scan_faces a fs = Inl IndexError \<or>
     (\<exists>out. scan_faces a fs = Inr (True, cleared a, out))"
  by (induction fs) (auto simp: has_match_def Let_def reset_intruder_state_def)

lemma scan_faces_match_ok:
  "has_match fs \<Longrightarrow> names_cover a fs \<Longrightarrow>
     \<exists>out. scan_faces a fs = Inr (True, cleared a, out)"
proof (induction fs)
  case Nil
  then show ?case by (simp add: has_match_def)
next
  case (Cons m fs)
  show ?case
  proof (cases "True \<in> set m")
    case True
    then have "index_True m < length (known_face_names a)"
      using index_True_less [of m] Cons.prems(2) by (simp add: names_cover_def)
    with True show ?thesis by (simp add: Let_def reset_intruder_state_def)
  next
    case False
    with Cons show ?thesis by (simp add: has_match_def names_cover_def)
  qed
qed

lemma tick_trusted:
  assumes "scan_faces a (face_matches inp) = Inr (True, cleared a, out)"
  shows "tick rnd a inp = Inr (cleared a, TrustedPresent, out)"
  using assms by (simp add: tick_def reset_intruder_state_def)

subsection \<open>The three kinds of tick\<close>

lemma tick_no_match_nonempty:
  assumes "face_matches inp \<noteq> []" and "\<not> has_match (face_matches inp)"
  shows "tick rnd a inp =
     (case unrecognized_face_start_time a of
        None \<Rightarrow> Inr (a\<lparr>unrecognized_face_start_time := Some (clock_guard inp)\<rparr>,
                     UnknownPending, [])
      | Some since \<Rightarrow>
          if rnd (clock_guard inp - since) > GRACE_PERIOD_SECONDS then
            (case handle_intruder_escalation rnd (a\<lparr>intruder_detected := True\<rparr>)
                    (frame inp) (clock_escalation inp) of
               Inl e \<Rightarrow> Inl e
             | Inr (a2, out2) \<Rightarrow> Inr (a2, IntruderConfirmed, out2))
          else Inr (a, UnknownPending, []))"
  using assms by (simp add: tick_def scan_faces_no_match split: option.splits sum.splits)

lemma tick_empty:
  assumes "face_matches inp = []"
  shows "tick rnd a inp = Inr (a\<lparr>unrecognized_face_start_time := None\<rparr>, NoFaces, [])"
  using assms by (simp add: tick_def)

lemma handle_cases:
  assumes "escalation_level a = 0 \<or> last_warning_time a \<noteq> None"
  shows "handle_intruder_escalation rnd a frm t = Inr (a, []) \<or>
         (\<exists>out. handle_intruder_escalation rnd a frm t =
            Inr (a\<lparr>escalation_level := escalation_level a + 1, last_warning_time := Some t\<rparr>, out)
            \<and> length (says out) = 1)"
  using assms by (auto simp: handle_intruder_escalation_def Let_def says_speak says_append)

subsection \<open>Trusted presence\<close>

text \<open>
  Claim C1. A tick in which at least one face is matched to a known identity is a
  \<open>TrustedPresent\<close> tick and, whatever the state before, it clears
  \<open>unrecognized_face_start_time\<close>, sets \<open>intruder_detected\<close> to false, puts the
  escalation level back to 0 and clears \<open>last_warning_time\<close>. The tick cannot raise
  \<^verbatim>\<open>TypeError\<close>, and it returns whenever the match lists are as long as the list of names.
\<close>

theorem C1_trusted_face_resets:
  assumes "has_match (face_matches inp)"
  shows "tick rnd a inp \<noteq> Inl TypeError \<and>
         (names_cover a (face_matches inp) \<longrightarrow> (\<exists>out. tick rnd a inp = Inr (cleared a, TrustedPresent, out))) \<and>
         (\<forall>a' d out. tick rnd a inp = Inr (a', d, out) \<longrightarrow>
            d = TrustedPresent \<and>
            unrecognized_face_start_time a' = None \<and>
            \<not> intruder_detected a' \<and>
            escalation_level a' = 0 \<and>
            last_warning_time a' = None)"
proof -
  from scan_faces_match_cases [OF assms, of a]
  consider "scan_faces a (face_matches inp) = (Inl IndexError :: py_error + bool \<times> SentinelAgent \<times> 'a effect list)"
    | out where "scan_faces a (face_matches inp) = Inr (True, cleared a, out :: 'a effect list)"
    by blast
  then have part: "tick rnd a inp \<noteq> Inl TypeError \<and>
         (\<forall>a' d out. tick rnd a inp = Inr (a', d, out) \<longrightarrow>
            d = TrustedPresent \<and> a' = cleared a)"
  proof cases
    case 1
    then show ?thesis by (simp add: tick_def)
  next
    case 2
    then show ?thesis by (simp add: tick_trusted)
  qed
  have "names_cover a (face_matches inp) \<Longrightarrow> \<exists>out. tick rnd a inp = Inr (cleared a, TrustedPresent, out :: 'a effect list)"
    using scan_faces_match_ok [OF assms] tick_trusted by blast
  with part show ?thesis by auto
qed

theorem C1_trusted_face_resets_witness:
  "has_match (face_matches (owner_face_at 30)) \<and>
   names_cover (intruded 2 12) (face_matches (owner_face_at 30)) \<and>
   tick exact (intruded 2 12) (owner_face_at 30) =
     Inr (init_agent [''owner''], TrustedPresent,
          [Print ''Recognized: owner'',
           Print ''Threat neutralized or trusted person identified. Resetting state.''])"
proof -
  have h: "has_match (face_matches (owner_face_at 30))"
    by (simp add: has_match_def owner_face_at_def)
  have c: "names_cover (intruded 2 12) (face_matches (owner_face_at 30))"
    by (simp add: names_cover_def owner_face_at_def intruded_def)
  have t: "tick exact (intruded 2 12) (owner_face_at 30) =
     Inr (init_agent [''owner''], TrustedPresent,
          [Print ''Recognized: owner'',
           Print ''Threat neutralized or trusted person identified. Resetting state.''])"
    by (simp add: tick_def owner_face_at_def intruded_def init_agent_def reset_intruder_state_def)
  from C1_trusted_face_resets [OF h, where a = "intruded 2 12" and rnd = exact] h c t show ?thesis by simp
qed

subsection \<open>The grace period\<close>

text \<open>
  Claim C2 as stated (confirmation once \<open>now - unknownSince \<ge> 3\<close>) fails at exactly three
  seconds: line 140 tests \<^verbatim>\<open>>\<close>. The agent that saw an unknown face at 0 and sees it
  again at 3 stays pending; the difference 3 is a double, and the code computes it as it is.
\<close>

theorem C2_exact_grace_counterexample:
  "exact (3 - 0) \<ge> GRACE_PERIOD_SECONDS \<and>
   tick exact (watched 0) (unknown_face_at 3) = Inr (watched 0, UnknownPending, []) \<and>
   \<not> intruder_detected (watched 0)"
  by (simp add: tick_def watched_def unknown_face_at_def init_agent_def GRACE_PERIOD_SECONDS_def exact_def)

text \<open>
  Claim C2, amended. On a tick with a non-empty set of faces, none matched, and the timer
  already set: if the difference that line 140 computes, the elapsed time rounded to a double,
  is strictly more than \<open>GRACE_PERIOD_SECONDS\<close> (3 seconds), the tick sets
  \<open>intruder_detected\<close> and is an \<open>IntruderConfirmed\<close> tick; otherwise it is
  \<open>UnknownPending\<close> and changes nothing, and that is so whenever the elapsed time itself is
  three seconds or less. The fourth hypothesis holds in every state a run reaches (see C9).
\<close>

theorem C2_grace_exceeded_confirms:
  assumes "face_matches inp \<noteq> []" and "\<not> has_match (face_matches inp)"
    and "unrecognized_face_start_time a = Some since"
    and "escalation_level a = 0 \<or> last_warning_time a \<noteq> None"
  shows "GRACE_PERIOD_SECONDS = 3 \<and>
         (rnd (clock_guard inp - since) > GRACE_PERIOD_SECONDS \<longrightarrow>
            (\<exists>a' out. tick rnd a inp = Inr (a', IntruderConfirmed, out) \<and> intruder_detected a' \<and>
               unrecognized_face_start_time a' = Some since)) \<and>
         (rnd (clock_guard inp - since) \<le> GRACE_PERIOD_SECONDS \<longrightarrow>
            tick rnd a inp = Inr (a, UnknownPending, [])) \<and>
         (float_rounding rnd \<longrightarrow> clock_guard inp - since \<le> GRACE_PERIOD_SECONDS \<longrightarrow>
            tick rnd a inp = Inr (a, UnknownPending, []))"
proof -
  let ?b = "a\<lparr>intruder_detected := True\<rparr>"
  have ok: "escalation_level ?b = 0 \<or> last_warning_time ?b \<noteq> None"
    using assms(4) by simp
  have "\<exists>a' out. handle_intruder_escalation rnd ?b (frame inp) (clock_escalation inp) = Inr (a', out) \<and>
          intruder_detected a' \<and> unrecognized_face_start_time a' = Some since"
    using handle_cases [OF ok, where frm = "frame inp" and t = "clock_escalation inp" and rnd = rnd] assms(3) by auto
  then have rounded:
    "(rnd (clock_guard inp - since) > GRACE_PERIOD_SECONDS \<longrightarrow>
        (\<exists>a' out. tick rnd a inp = Inr (a', IntruderConfirmed, out) \<and> intruder_detected a' \<and>
           unrecognized_face_start_time a' = Some since)) \<and>
     (rnd (clock_guard inp - since) \<le> GRACE_PERIOD_SECONDS \<longrightarrow>
        tick rnd a inp = Inr (a, UnknownPending, []))"
    using tick_no_match_nonempty [OF assms(1,2), where a = "a" and rnd = rnd] assms(3)
    by auto
  have "rnd (clock_guard inp - since) \<le> GRACE_PERIOD_SECONDS"
    if "float_rounding rnd" and "clock_guard inp - since \<le> GRACE_PERIOD_SECONDS"
    using float_rounding_below [OF that(1), of "clock_guard inp - since"] that(2)
    by (simp add: GRACE_PERIOD_SECONDS_def)
  with rounded show ?thesis by (auto simp: GRACE_PERIOD_SECONDS_def)
qed

theorem C2_grace_exceeded_confirms_witness:
  "face_matches (unknown_face_at 4) \<noteq> [] \<and> \<not> has_match (face_matches (unknown_face_at 4)) \<and>
   unrecognized_face_start_time (watched 0) = Some 0 \<and>
   escalation_level (watched 0) = 0 \<and>
   exact (clock_guard (unknown_face_at 4) - 0) > GRACE_PERIOD_SECONDS \<and>
   (\<exists>a' out. tick exact (watched 0) (unknown_face_at 4) = Inr (a', IntruderConfirmed, out) \<and>
      intruder_detected a' \<and> unrecognized_face_start_time a' = Some 0) \<and>
   float_rounding exact"
proof -
  have h1: "face_matches (unknown_face_at 4) \<noteq> []"
    and h2: "\<not> has_match (face_matches (unknown_face_at 4))"
    by (simp_all add: unknown_face_at_def has_match_def)
  have h3: "unrecognized_face_start_time (watched 0) = Some 0"
    and h4: "escalation_level (watched 0) = 0 \<or> last_warning_time (watched 0) \<noteq> None"
    by (simp_all add: watched_def init_agent_def)
  have h5: "exact (clock_guard (unknown_face_at 4) - 0) > GRACE_PERIOD_SECONDS"
    by (simp add: unknown_face_at_def GRACE_PERIOD_SECONDS_def exact_def)
  have h6: "escalation_level (watched 0) = 0"
    by (simp add: watched_def init_agent_def)
  from C2_grace_exceeded_confirms [OF h1 h2 h3 h4, where rnd = exact]
    h1 h2 h3 h5 h6 float_rounding_exact
  show ?thesis by blast
qed

subsection \<open>What every run keeps\<close>

lemma tick_match_cases:
  assumes "has_match (face_matches inp)"
  shows "tick rnd a inp = Inl IndexError \<or> (\<exists>out. tick rnd a inp = Inr (cleared a, TrustedPresent, out))"
proof -
  from scan_faces_match_cases [OF assms, of a]
  consider "scan_faces a (face_matches inp) =
              (Inl IndexError :: py_error + bool \<times> SentinelAgent \<times> 'a effect list)"
    | out where "scan_faces a (face_matches inp) = Inr (True, cleared a, out :: 'a effect list)"
    by blast
  then show ?thesis
  proof cases
    case 1
    then show ?thesis by (simp add: tick_def)
  next
    case 2
    then show ?thesis by (simp add: tick_trusted)
  qed
qed

lemma handle_level_mono:
  assumes "handle_intruder_escalation rnd a frm t = Inr (a', out)"
  shows "escalation_level a \<le> escalation_level a' \<and>
         intruder_detected a' = intruder_detected a \<and>
         unrecognized_face_start_time a' = unrecognized_face_start_time a \<and>
         known_face_names a' = known_face_names a \<and>
         (last_warning_time a \<noteq> None \<longrightarrow> last_warning_time a' \<noteq> None)"
  using assms
  by (auto simp: handle_intruder_escalation_def Let_def split: if_splits option.splits)

lemma handle_keeps_ladder:
  assumes "ladder_ok a" and "handle_intruder_escalation rnd a frm t = Inr (a', out)"
  shows "ladder_ok a'"
  using assms
  by (auto simp: handle_intruder_escalation_def ladder_ok_def Let_def
           split: if_splits option.splits)

lemma handle_no_error:
  assumes "escalation_level a = 0 \<or> last_warning_time a \<noteq> None"
  shows "\<exists>a' out. handle_intruder_escalation rnd a frm t = Inr (a', out)"
  using handle_cases [OF assms, where frm = "frm" and t = "t" and rnd = rnd] by auto

lemma handle_only_TypeError:
  "handle_intruder_escalation rnd a frm t = Inl e \<Longrightarrow> e = TypeError"
  by (auto simp: handle_intruder_escalation_def Let_def split: if_splits option.splits)

lemma tick_keeps_ladder:
  assumes "ladder_ok a" and "tick rnd a inp = Inr (a', d, out)"
  shows "ladder_ok a'"
proof (cases "has_match (face_matches inp)")
  case True
  from tick_match_cases [OF True, where a = "a" and rnd = rnd] assms(2) have "a' = cleared a" by auto
  then show ?thesis by (simp add: ladder_ok_def)
next
  case False
  show ?thesis
  proof (cases "face_matches inp = []")
    case True
    with assms show ?thesis by (auto simp: tick_empty ladder_ok_def)
  next
    case nonempty: False
    have b: "ladder_ok (a\<lparr>intruder_detected := True\<rparr>)"
      using assms(1) by (simp add: ladder_ok_def)
    have u: "ladder_ok (a\<lparr>unrecognized_face_start_time := Some (clock_guard inp)\<rparr>)"
      using assms(1) by (simp add: ladder_ok_def)
    show ?thesis
      using assms tick_no_match_nonempty [OF nonempty False, where a = "a" and rnd = rnd] u
        handle_keeps_ladder [OF b, where frm = "frame inp" and t = "clock_escalation inp" and rnd = rnd]
      by (auto split: option.splits if_splits sum.splits)
  qed
qed

lemma tick_no_TypeError:
  assumes "ladder_ok a"
  shows "tick rnd a inp \<noteq> Inl TypeError"
proof (cases "has_match (face_matches inp)")
  case True
  from tick_match_cases [OF True, where a = "a" and rnd = rnd] show ?thesis by auto
next
  case False
  show ?thesis
  proof (cases "face_matches inp = []")
    case True
    then show ?thesis by (simp add: tick_empty)
  next
    case nonempty: False
    have "escalation_level (a\<lparr>intruder_detected := True\<rparr>) = 0 \<or>
          last_warning_time (a\<lparr>intruder_detected := True\<rparr>) \<noteq> None"
      using assms by (auto simp: ladder_ok_def)
    from handle_no_error [OF this, where frm = "frame inp" and t = "clock_escalation inp" and rnd = rnd]
    show ?thesis
      using tick_no_match_nonempty [OF nonempty False, where a = "a" and rnd = rnd]
      by (auto split: option.splits)
  qed
qed

lemma ladder_ok_init: "ladder_ok (init_agent names)"
  by (simp add: ladder_ok_def init_agent_def)

lemma run_ticks_ladder:
  "ladder_ok a \<Longrightarrow>
     run_ticks rnd a ins \<noteq> Inl TypeError \<and>
     (\<forall>a' out. run_ticks rnd a ins = Inr (a', out) \<longrightarrow> ladder_ok a')"
proof (induction ins arbitrary: a)
  case Nil
  then show ?case by simp
next
  case (Cons inp ins)
  show ?case
  proof (cases "tick rnd a inp")
    case (Inl e)
    with tick_no_TypeError [OF Cons.prems, where inp = inp and rnd = rnd] show ?thesis by auto
  next
    case (Inr r)
    obtain a1 d out1 where r: "r = (a1, d, out1)" by (cases r) auto
    have "ladder_ok a1" using tick_keeps_ladder [OF Cons.prems] Inr r by blast
    from Cons.IH [OF this] show ?thesis
      using Inr r by (auto split: sum.splits)
  qed
qed

subsection \<open>Frames without faces\<close>

text \<open>
  Claim C4. A tick whose set of faces is empty clears \<open>unrecognized_face_start_time\<close> and
  leaves \<open>intruder_detected\<close>, the escalation level and \<open>last_warning_time\<close> as they were.
  Only a tick with a trusted face ends an intrusion: on any tick without a matched face an
  active \<open>intruder_detected\<close> stays, the level does not go down and a set
  \<open>last_warning_time\<close> stays set.
\<close>

theorem C4_empty_tick_keeps_episode:
  "(face_matches inp = [] \<longrightarrow>
      (\<exists>a'. tick rnd a inp = Inr (a', NoFaces, []) \<and>
         unrecognized_face_start_time a' = None \<and>
         intruder_detected a' = intruder_detected a \<and>
         escalation_level a' = escalation_level a \<and>
         last_warning_time a' = last_warning_time a)) \<and>
   (\<forall>a' d out. tick rnd a inp = Inr (a', d, out) \<and> \<not> has_match (face_matches inp) \<longrightarrow>
      (intruder_detected a \<longrightarrow> intruder_detected a') \<and>
      escalation_level a \<le> escalation_level a' \<and>
      (last_warning_time a \<noteq> None \<longrightarrow> last_warning_time a' \<noteq> None))"
proof -
  have first: "face_matches inp = [] \<longrightarrow>
      (\<exists>a'. tick rnd a inp = Inr (a', NoFaces, []) \<and>
         unrecognized_face_start_time a' = None \<and>
         intruder_detected a' = intruder_detected a \<and>
         escalation_level a' = escalation_level a \<and>
         last_warning_time a' = last_warning_time a)"
    by (simp add: tick_empty)
  have second: "(intruder_detected a \<longrightarrow> intruder_detected a') \<and>
      escalation_level a \<le> escalation_level a' \<and>
      (last_warning_time a \<noteq> None \<longrightarrow> last_warning_time a' \<noteq> None)"
    if run: "tick rnd a inp = Inr (a', d, out)" and nomatch: "\<not> has_match (face_matches inp)"
    for a' d out
  proof (cases "face_matches inp = []")
    case True
    with run show ?thesis by (auto simp: tick_empty)
  next
    case False
    from run tick_no_match_nonempty [OF False nomatch, where a = "a" and rnd = rnd]
    show ?thesis
      by (auto split: option.splits if_splits sum.splits dest!: handle_level_mono)
  qed
  from first second show ?thesis by blast
qed

theorem C4_empty_tick_keeps_episode_witness:
  "face_matches (no_face_at 20) = [] \<and> \<not> has_match (face_matches (no_face_at 20)) \<and>
   tick exact (intruded 2 12) (no_face_at 20) =
     Inr ((intruded 2 12)\<lparr>unrecognized_face_start_time := None\<rparr>, NoFaces, []) \<and>
   intruder_detected ((intruded 2 12)\<lparr>unrecognized_face_start_time := None\<rparr>) \<and>
   escalation_level ((intruded 2 12)\<lparr>unrecognized_face_start_time := None\<rparr>) = 2"
proof -
  have e: "face_matches (no_face_at 20) = []" by (simp add: no_face_at_def)
  have n: "\<not> has_match (face_matches (no_face_at 20))" by (simp add: no_face_at_def has_match_def)
  have t: "tick exact (intruded 2 12) (no_face_at 20) =
     Inr ((intruded 2 12)\<lparr>unrecognized_face_start_time := None\<rparr>, NoFaces, [])"
    by (simp add: tick_def no_face_at_def)
  have i: "intruder_detected (intruded 2 12)" by (simp add: intruded_def)
  from C4_empty_tick_keeps_episode [where inp = "no_face_at 20" and a = "intruded 2 12" and rnd = exact] e n t i
  show ?thesis by (simp add: intruded_def)
qed

subsection \<open>One escalation tick\<close>

text \<open>
  Claim C6. A call of \<^verbatim>\<open>handle_intruder_escalation\<close> speaks at most one message (and
  writes a snapshot only together with one). At level 0 it always fires. At levels 1 and 2 it
  fires exactly when the difference \<open>now - last_warning_time\<close> that line 74 computes, rounded
  to a double, exceeds 10, at level 3 exactly when it exceeds 5. So it fires only when
  \<open>now - last_warning_time\<close> itself exceeds 10 seconds, or 5 at level 3. A call that fires
  sets \<open>last_warning_time\<close> to \<open>now\<close> and raises the level by one; a call that does not fire
  produces nothing and changes nothing.
\<close>

theorem C6_one_action_per_tick:
  assumes "escalation_level a = 0 \<or> last_warning_time a = Some w"
  shows "\<exists>a' out. handle_intruder_escalation rnd a frm now = Inr (a', out) \<and>
           length (says out) \<le> 1 \<and> length (snapshots out) \<le> length (says out) \<and>
           (escalation_level a = 0 \<longrightarrow> says out = [MSG_LEVEL0]) \<and>
           (escalation_level a = 1 \<longrightarrow>
              says out = (if rnd (now - w) > 10 then [MSG_LEVEL1] else [])) \<and>
           (escalation_level a = 2 \<longrightarrow>
              says out = (if rnd (now - w) > 10 then [MSG_LEVEL2] else [])) \<and>
           (escalation_level a = 3 \<longrightarrow>
              says out = (if rnd (now - w) > 5 then [MSG_LEVEL3] else [])) \<and>
           (float_rounding rnd \<longrightarrow> says out \<noteq> [] \<longrightarrow>
              (escalation_level a = 1 \<or> escalation_level a = 2 \<longrightarrow> now - w > 10) \<and>
              (escalation_level a = 3 \<longrightarrow> now - w > 5)) \<and>
           (says out \<noteq> [] \<longrightarrow>
              last_warning_time a' = Some now \<and> escalation_level a' = escalation_level a + 1) \<and>
           (says out = [] \<longrightarrow> a' = a \<and> out = [])"
proof -
  have ten: "float_rounding rnd \<Longrightarrow> rnd (now - w) > 10 \<Longrightarrow> now - w > 10"
    and five: "float_rounding rnd \<Longrightarrow> rnd (now - w) > 5 \<Longrightarrow> now - w > 5"
    by (rule float_rounding_above; assumption)+
  consider (zero) "escalation_level a = 0"
    | (one) "escalation_level a = 1" "last_warning_time a = Some w"
    | (two) "escalation_level a = 2" "last_warning_time a = Some w"
    | (three) "escalation_level a = 3" "last_warning_time a = Some w"
    | (other) "escalation_level a \<notin> {0, 1, 2, 3}" "last_warning_time a = Some w"
    using assms by auto
  then show ?thesis
  proof cases
    case zero
    then show ?thesis
      by (simp add: handle_intruder_escalation_def says_speak snapshots_speak)
  next
    case one
    with ten show ?thesis
      by (simp add: handle_intruder_escalation_def says_speak snapshots_speak)
  next
    case two
    with ten show ?thesis
      by (simp add: handle_intruder_escalation_def says_speak snapshots_speak
          says_append snapshots_append)
  next
    case three
    with five show ?thesis
      by (simp add: handle_intruder_escalation_def says_speak snapshots_speak)
  next
    case other
    then show ?thesis
      by (simp add: handle_intruder_escalation_def)
  qed
qed

theorem C6_one_action_per_tick_witness:
  "last_warning_time (intruded 3 30) = Some 30 \<and>
   handle_intruder_escalation exact (intruded 3 30) (0::nat) 36 =
     Inr ((intruded 3 30)\<lparr>escalation_level := 4, last_warning_time := Some 36\<rparr>,
          speak MSG_LEVEL3) \<and>
   handle_intruder_escalation exact (intruded 3 30) (0::nat) 35 = Inr (intruded 3 30, []) \<and>
   float_rounding exact"
proof -
  have h: "escalation_level (intruded 3 30) = 0 \<or> last_warning_time (intruded 3 30) = Some 30"
    by (simp add: intruded_def)
  have l: "last_warning_time (intruded 3 30) = Some 30"
    by (simp add: intruded_def)
  have a: "handle_intruder_escalation exact (intruded 3 30) (0::nat) 36 =
     Inr ((intruded 3 30)\<lparr>escalation_level := 4, last_warning_time := Some 36\<rparr>,
          speak MSG_LEVEL3)"
    by (simp add: handle_intruder_escalation_def intruded_def exact_def)
  have b: "handle_intruder_escalation exact (intruded 3 30) (0::nat) 35 = Inr (intruded 3 30, [])"
    by (simp add: handle_intruder_escalation_def intruded_def exact_def)
  from C6_one_action_per_tick [OF h, where frm = "0::nat" and now = 36 and rnd = exact]
    a b l float_rounding_exact
  show ?thesis by blast
qed

subsection \<open>The warning time is there when it is read\<close>

lemma run_ticks_no_TypeError:
  "ladder_ok a \<Longrightarrow> run_ticks rnd a ins \<noteq> Inl TypeError"
  using run_ticks_ladder [where a = a and ins = ins and rnd = rnd] by blast

lemma run_ticks_keeps_ladder:
  "ladder_ok a \<Longrightarrow> run_ticks rnd a ins = Inr (a', out) \<Longrightarrow> ladder_ok a'"
  using run_ticks_ladder [where a = a and ins = ins and rnd = rnd] by blast

text \<open>
  Claim C9. In every state that a sequence of ticks reaches from the initial state, a positive
  escalation level comes with a set \<open>last_warning_time\<close>. So no run raises \<^verbatim>\<open>TypeError\<close>,
  and the escalation call of the next tick returns, whatever the frame and the clock.
\<close>

theorem C9_warning_time_is_set:
  "run_ticks rnd (init_agent names) ins \<noteq> Inl TypeError \<and>
   (\<forall>a out. run_ticks rnd (init_agent names) ins = Inr (a, out) \<longrightarrow>
      (0 < escalation_level a \<longrightarrow> last_warning_time a \<noteq> None) \<and>
      (\<forall>frm t. \<exists>r. handle_intruder_escalation rnd (a\<lparr>intruder_detected := True\<rparr>) frm t = Inr r))"
proof (intro conjI allI impI)
  show "run_ticks rnd (init_agent names) ins \<noteq> Inl TypeError"
    by (rule run_ticks_no_TypeError [OF ladder_ok_init])
next
  fix a and out :: "'a effect list"
  assume run: "run_ticks rnd (init_agent names) ins = Inr (a, out)" and "0 < escalation_level a"
  have "ladder_ok a"
    by (rule run_ticks_keeps_ladder [OF ladder_ok_init run])
  with \<open>0 < escalation_level a\<close> show "last_warning_time a \<noteq> None"
    by (simp add: ladder_ok_def)
next
  fix a and out :: "'a effect list" and frm :: 'b and t
  assume "run_ticks rnd (init_agent names) ins = Inr (a, out)"
  then have "ladder_ok a"
    by (rule run_ticks_keeps_ladder [OF ladder_ok_init])
  then have "escalation_level (a\<lparr>intruder_detected := True\<rparr>) = 0 \<or>
        last_warning_time (a\<lparr>intruder_detected := True\<rparr>) \<noteq> None"
    by (auto simp: ladder_ok_def)
  from handle_no_error [OF this, where frm = "frm" and t = "t" and rnd = rnd]
  show "\<exists>r. handle_intruder_escalation rnd (a\<lparr>intruder_detected := True\<rparr>) frm t = Inr r"
    by auto
qed

theorem C9_warning_time_is_set_witness:
  "run_ticks exact (init_agent [''owner'']) [unknown_face_at 0, unknown_face_at 4, no_face_at 5] =
     Inr ((intruded 1 4)\<lparr>unrecognized_face_start_time := None\<rparr>, speak MSG_LEVEL0) \<and>
   0 < escalation_level ((intruded 1 4)\<lparr>unrecognized_face_start_time := None\<rparr>) \<and>
   last_warning_time ((intruded 1 4)\<lparr>unrecognized_face_start_time := None\<rparr>) \<noteq> None"
proof -
  have r: "run_ticks exact (init_agent [''owner'']) [unknown_face_at 0, unknown_face_at 4, no_face_at 5] =
     Inr ((intruded 1 4)\<lparr>unrecognized_face_start_time := None\<rparr>, speak MSG_LEVEL0)"
    by (simp add: tick_def init_agent_def unknown_face_at_def no_face_at_def intruded_def
        handle_intruder_escalation_def GRACE_PERIOD_SECONDS_def exact_def)
  have l: "0 < escalation_level ((intruded 1 4)\<lparr>unrecognized_face_start_time := None\<rparr>)"
    by (simp add: intruded_def)
  from C9_warning_time_is_set [where names = "[''owner'']" and rnd = exact
      and ins = "[unknown_face_at 0, unknown_face_at 4, no_face_at 5]"]
  have "0 < escalation_level ((intruded 1 4)\<lparr>unrecognized_face_start_time := None\<rparr>) \<longrightarrow>
        last_warning_time ((intruded 1 4)\<lparr>unrecognized_face_start_time := None\<rparr>) \<noteq> None"
    using r by blast
  with r l show ?thesis by blast
qed

subsection \<open>The ladder over a whole episode\<close>

lemma drop_take_chain:
  assumes "i \<le> j" and "j \<le> k"
  shows "drop i (take j xs) @ drop j (take k xs) = drop i (take k xs)"
proof -
  have "take k xs = take j (take k xs) @ drop j (take k xs)"
    by (rule append_take_drop_id [symmetric])
  also have "take j (take k xs) = take j xs"
    using assms(2) by (simp add: min_def)
  finally have split: "take k xs = take j xs @ drop j (take k xs)" .
  show ?thesis
  proof (cases "j \<le> length xs")
    case True
    then have "length (take j xs) = j" by simp
    then have "drop i (take j xs @ drop j (take k xs)) = drop i (take j xs) @ drop j (take k xs)"
      using assms(1) by simp
    with split show ?thesis by simp
  next
    case False
    then have "drop j (take k xs) = []" by simp
    moreover have "take k xs = take j xs" using False assms(2) by simp
    ultimately show ?thesis by simp
  qed
qed

lemma ladder_level_cases:
  assumes "ladder_ok a"
  obtains (zero) "escalation_level a = 0"
    | (one) w where "escalation_level a = 1" "last_warning_time a = Some w"
    | (two) w where "escalation_level a = 2" "last_warning_time a = Some w"
    | (three) w where "escalation_level a = 3" "last_warning_time a = Some w"
    | (four) w where "escalation_level a = 4" "last_warning_time a = Some w"
proof -
  from assms have "escalation_level a \<in> {0, 1, 2, 3, 4}"
    by (auto simp: ladder_ok_def)
  moreover from assms have "escalation_level a \<noteq> 0 \<Longrightarrow> \<exists>w. last_warning_time a = Some w"
    by (auto simp: ladder_ok_def)
  ultimately show thesis
    using zero one two three four by auto
qed

lemma handle_effects:
  assumes "ladder_ok a" and "handle_intruder_escalation rnd a frm t = Inr (a', out)"
  shows "says out = drop (nat (escalation_level a)) (take (nat (escalation_level a')) ladder_messages) \<and>
         snapshots out =
           (if escalation_level a = 2 \<and> escalation_level a' = 3 then [snapshot_path t] else [])"
  using assms(1)
proof (cases rule: ladder_level_cases)
  case zero
  with assms(2) show ?thesis
    by (auto simp: handle_intruder_escalation_def Let_def ladder_messages_def says_speak snapshots_speak)
next
  case (one w)
  with assms(2) show ?thesis
    by (auto simp: handle_intruder_escalation_def Let_def ladder_messages_def says_speak snapshots_speak
        split: if_splits)
next
  case (two w)
  with assms(2) show ?thesis
    by (auto simp: handle_intruder_escalation_def Let_def ladder_messages_def says_speak snapshots_speak
        says_append snapshots_append split: if_splits)
next
  case (three w)
  with assms(2) show ?thesis
    by (auto simp: handle_intruder_escalation_def Let_def ladder_messages_def says_speak snapshots_speak
        split: if_splits)
next
  case (four w)
  with assms(2) show ?thesis
    by (auto simp: handle_intruder_escalation_def Let_def ladder_messages_def)
qed

lemma handle_level_step:
  assumes "handle_intruder_escalation rnd a frm t = Inr (a', out)"
  shows "escalation_level a' \<le> escalation_level a + 1"
  using assms
  by (auto simp: handle_intruder_escalation_def Let_def split: if_splits option.splits)

lemma tick_unmatched_effects:
  assumes "ladder_ok a" and "\<not> has_match (face_matches inp)" and "tick rnd a inp = Inr (a', d, out)"
  shows "escalation_level a \<le> escalation_level a' \<and>
         escalation_level a' \<le> escalation_level a + 1 \<and>
         says out = drop (nat (escalation_level a)) (take (nat (escalation_level a')) ladder_messages) \<and>
         snapshots out =
           (if escalation_level a = 2 \<and> escalation_level a' = 3
            then [snapshot_path (clock_escalation inp)] else [])"
proof (cases "face_matches inp = []")
  case True
  with assms(3) show ?thesis by (auto simp: tick_empty)
next
  case False
  let ?b = "a\<lparr>intruder_detected := True\<rparr>"
  have b: "ladder_ok ?b" using assms(1) by (simp add: ladder_ok_def)
  show ?thesis
  proof (cases "unrecognized_face_start_time a")
    case None
    with assms(3) tick_no_match_nonempty [OF False assms(2), where a = "a" and rnd = rnd] show ?thesis by auto
  next
    case (Some since)
    show ?thesis
    proof (cases "rnd (clock_guard inp - since) > GRACE_PERIOD_SECONDS")
      case True
      with Some assms(3) tick_no_match_nonempty [OF False assms(2), where a = "a" and rnd = rnd]
      have h: "handle_intruder_escalation rnd ?b (frame inp) (clock_escalation inp) = Inr (a', out)"
        by (auto split: sum.splits)
      from handle_effects [OF b h] handle_level_mono [OF h] handle_level_step [OF h]
      show ?thesis by simp
    next
      case False
      with Some assms(3) tick_no_match_nonempty [OF \<open>face_matches inp \<noteq> []\<close> assms(2), where a = "a" and rnd = rnd]
      show ?thesis by auto
    qed
  qed
qed

lemma run_unmatched_effects:
  assumes "ladder_ok a" and "\<forall>i \<in> set ins. \<not> has_match (face_matches i)"
    and "run_ticks rnd a ins = Inr (a', out)"
  shows "escalation_level a \<le> escalation_level a' \<and>
         says out = drop (nat (escalation_level a)) (take (nat (escalation_level a')) ladder_messages) \<and>
         length (snapshots out) =
           (if escalation_level a \<le> 2 \<and> 3 \<le> escalation_level a' then 1 else 0) \<and>
         (\<forall>p \<in> set (snapshots out). \<exists>i \<in> set ins. p = snapshot_path (clock_escalation i))"
  using assms
proof (induction ins arbitrary: a out)
  case Nil
  then show ?case by auto
next
  case (Cons inp ins)
  from Cons.prems(3) obtain a1 d out1 out2
    where step: "tick rnd a inp = Inr (a1, d, out1)"
      and rest: "run_ticks rnd a1 ins = Inr (a', out2)"
      and out: "out = out1 @ out2"
    by (auto split: sum.splits)
  have nm: "\<not> has_match (face_matches inp)" using Cons.prems(2) by simp
  have ok1: "ladder_ok a1" by (rule tick_keeps_ladder [OF Cons.prems(1) step])
  note s = tick_unmatched_effects [OF Cons.prems(1) nm step]
  have "\<forall>i \<in> set ins. \<not> has_match (face_matches i)" using Cons.prems(2) by simp
  note r = Cons.IH [OF ok1 this rest]
  have l01: "nat (escalation_level a) \<le> nat (escalation_level a1)"
    and l12: "nat (escalation_level a1) \<le> nat (escalation_level a')"
    using s r by (auto intro: nat_mono)
  have says: "says out =
      drop (nat (escalation_level a)) (take (nat (escalation_level a')) ladder_messages)"
    using s r drop_take_chain [OF l01 l12, of ladder_messages]
    by (simp add: out says_append)
  have count: "length (snapshots out) =
      (if escalation_level a \<le> 2 \<and> 3 \<le> escalation_level a' then 1 else 0)"
    using s r by (auto simp: out snapshots_append split: if_splits)
  have paths: "\<forall>p \<in> set (snapshots out). \<exists>i \<in> set (inp # ins). p = snapshot_path (clock_escalation i)"
    using s r by (auto simp: out snapshots_append split: if_splits)
  from s r says count paths show ?case by simp
qed

subsection \<open>The snapshot path is the decimal number of seconds\<close>





subsection \<open>Episodes\<close>

lemma full_episode_run:
  "run_ticks exact (init_agent [''owner'']) full_episode =
     Inr (intruded 4 32,
          speak MSG_LEVEL0 @ speak MSG_LEVEL1 @ speak MSG_LEVEL2 @
          [Imwrite (snapshot_path 26) 0,
           Print (''Intruder snapshot saved to '' @ snapshot_path 26)] @
          speak MSG_LEVEL3)"
  by (simp add: full_episode_def tick_def init_agent_def unknown_face_at_def intruded_def
      handle_intruder_escalation_def GRACE_PERIOD_SECONDS_def exact_def)

lemma full_episode_unmatched: "\<forall>i \<in> set full_episode. \<not> has_match (face_matches i)"
  by (simp add: full_episode_def unknown_face_at_def has_match_def)

text \<open>
  Claim C5. An episode is a run of ticks without a trusted face from a state at level 0. At
  every point of it the level is between 0 and 4 and the messages spoken so far are exactly
  the first \<open>level\<close> warnings of the ladder, each once and in order. The next escalation call
  either does nothing or raises the level by exactly one and speaks the warning of the level
  it leaves; at level 4 it does nothing.
\<close>

theorem C5_ladder_in_order:
  assumes "run_ticks rnd a0 ins = Inr (a, out)" and "escalation_level a0 = 0"
    and "\<forall>i \<in> set ins. \<not> has_match (face_matches i)"
  shows "0 \<le> escalation_level a \<and> escalation_level a \<le> 4 \<and>
         says out = take (nat (escalation_level a)) ladder_messages \<and>
         (\<exists>a' out'.
            handle_intruder_escalation rnd (a\<lparr>intruder_detected := True\<rparr>) frm t = Inr (a', out') \<and>
            ((a' = a\<lparr>intruder_detected := True\<rparr> \<and> out' = []) \<or>
             (escalation_level a' = escalation_level a + 1 \<and>
              says out' = [ladder_messages ! nat (escalation_level a)])) \<and>
            (escalation_level a = 4 \<longrightarrow> a' = a\<lparr>intruder_detected := True\<rparr> \<and> out' = []))"
proof -
  have ok0: "ladder_ok a0" using assms(2) by (simp add: ladder_ok_def)
  have ok: "ladder_ok a" by (rule run_ticks_keeps_ladder [OF ok0 assms(1)])
  then have range: "0 \<le> escalation_level a \<and> escalation_level a \<le> 4"
    by (simp add: ladder_ok_def)
  have said: "says out = take (nat (escalation_level a)) ladder_messages"
    using run_unmatched_effects [OF ok0 assms(3) assms(1)] assms(2) by simp
  let ?b = "a\<lparr>intruder_detected := True\<rparr>"
  have step: "\<exists>a' out'.
      handle_intruder_escalation rnd ?b frm t = Inr (a', out') \<and>
      ((a' = ?b \<and> out' = []) \<or>
       (escalation_level a' = escalation_level a + 1 \<and>
        says out' = [ladder_messages ! nat (escalation_level a)])) \<and>
      (escalation_level a = 4 \<longrightarrow> a' = ?b \<and> out' = [])"
    using ok
  proof (cases rule: ladder_level_cases)
    case zero
    then show ?thesis
      by (simp add: handle_intruder_escalation_def Let_def ladder_messages_def says_speak)
  next
    case (one w)
    then show ?thesis
      by (simp add: handle_intruder_escalation_def Let_def ladder_messages_def says_speak)
  next
    case (two w)
    then show ?thesis
      by (simp add: handle_intruder_escalation_def Let_def ladder_messages_def says_speak says_append)
  next
    case (three w)
    then show ?thesis
      by (simp add: handle_intruder_escalation_def Let_def ladder_messages_def says_speak)
  next
    case (four w)
    then show ?thesis
      by (simp add: handle_intruder_escalation_def)
  qed
  from range said step show ?thesis by blast
qed

theorem C5_ladder_in_order_witness:
  "escalation_level (init_agent [''owner'']) = 0 \<and>
   run_ticks exact (init_agent [''owner'']) full_episode =
     Inr (intruded 4 32,
          speak MSG_LEVEL0 @ speak MSG_LEVEL1 @ speak MSG_LEVEL2 @
          [Imwrite (snapshot_path 26) 0,
           Print (''Intruder snapshot saved to '' @ snapshot_path 26)] @
          speak MSG_LEVEL3) \<and>
   says (speak MSG_LEVEL0 @ speak MSG_LEVEL1 @ speak MSG_LEVEL2 @
          [Imwrite (snapshot_path 26) (0::nat),
           Print (''Intruder snapshot saved to '' @ snapshot_path 26)] @
          speak MSG_LEVEL3) = take (nat (escalation_level (intruded 4 32))) ladder_messages \<and>
   escalation_level (intruded 4 32) = 4"
proof -
  have z: "escalation_level (init_agent [''owner'']) = 0" by (simp add: init_agent_def)
  have l: "escalation_level (intruded 4 32) = 4" by (simp add: intruded_def)
  from C5_ladder_in_order [where frm = "0::nat" and t = 0,
      OF full_episode_run z full_episode_unmatched] z l full_episode_run
  show ?thesis by blast
qed



subsection \<open>How an intrusion comes about\<close>

lemma run_ticks_append:
  "run_ticks rnd a (xs @ ys) =
     (case run_ticks rnd a xs of
        Inl e \<Rightarrow> Inl e
      | Inr (b, out1) \<Rightarrow>
          (case run_ticks rnd b ys of
             Inl e \<Rightarrow> Inl e
           | Inr (c, out2) \<Rightarrow> Inr (c, out1 @ out2)))"
  by (induction xs arbitrary: a) (auto split: sum.splits)

lemma run_ticks_snoc_Inr:
  assumes "run_ticks rnd a (xs @ [x]) = Inr (c, out)"
  obtains b out1 d out2 where "run_ticks rnd a xs = Inr (b, out1)" and "tick rnd b x = Inr (c, d, out2)"
  using assms by (auto simp: run_ticks_append split: sum.splits)

lemma tick_matched_not_intruder:
  assumes "has_match (face_matches inp)" and "tick rnd b inp = Inr (a, d, out)"
  shows "\<not> intruder_detected a"
  using tick_match_cases [OF assms(1), where a = "b" and rnd = rnd] assms(2) by auto

lemma tick_starts_intrusion:
  assumes "\<not> intruder_detected b" and "tick rnd b inp = Inr (a, d, out)" and "intruder_detected a"
  shows "\<exists>since. unrecognized_face_start_time b = Some since \<and>
           rnd (clock_guard inp - since) > GRACE_PERIOD_SECONDS \<and>
           face_matches inp \<noteq> [] \<and> \<not> has_match (face_matches inp)"
proof -
  have nm: "\<not> has_match (face_matches inp)"
    using tick_matched_not_intruder [OF _ assms(2)] assms(3) by blast
  have ne: "face_matches inp \<noteq> []"
    using assms by (auto simp: tick_empty)
  from tick_no_match_nonempty [OF ne nm, where a = "b" and rnd = rnd] assms nm ne show ?thesis
    by (auto split: option.splits if_splits)
qed

lemma intruder_has_confirming_tick:
  assumes "\<not> intruder_detected a0" and "run_ticks rnd a0 ins = Inr (a, out)" and "intruder_detected a"
  shows "\<exists>pre inp post b out0 since.
           ins = pre @ inp # post \<and> run_ticks rnd a0 pre = Inr (b, out0) \<and>
           \<not> intruder_detected b \<and>
           unrecognized_face_start_time b = Some since \<and>
           rnd (clock_guard inp - since) > GRACE_PERIOD_SECONDS \<and>
           face_matches inp \<noteq> [] \<and> \<not> has_match (face_matches inp) \<and>
           (\<forall>i \<in> set post. \<not> has_match (face_matches i))"
  using assms(2,3)
proof (induction ins arbitrary: a out rule: rev_induct)
  case Nil
  with assms(1) show ?case by simp
next
  case (snoc x xs)
  from snoc.prems(1) obtain b out1 d out2
    where before: "run_ticks rnd a0 xs = Inr (b, out1)" and last: "tick rnd b x = Inr (a, d, out2)"
    by (rule run_ticks_snoc_Inr)
  have nm: "\<not> has_match (face_matches x)"
    using tick_matched_not_intruder [OF _ last] snoc.prems(2) by blast
  show ?case
  proof (cases "intruder_detected b")
    case True
    from snoc.IH [OF before True] obtain pre inp post b0 out0 since
      where "xs = pre @ inp # post" "run_ticks rnd a0 pre = Inr (b0, out0)"
        "\<not> intruder_detected b0"
        "unrecognized_face_start_time b0 = Some since"
        "rnd (clock_guard inp - since) > GRACE_PERIOD_SECONDS"
        "face_matches inp \<noteq> []" "\<not> has_match (face_matches inp)"
        "\<forall>i \<in> set post. \<not> has_match (face_matches i)"
      by blast
    with nm have "xs @ [x] = pre @ inp # (post @ [x]) \<and> run_ticks rnd a0 pre = Inr (b0, out0) \<and>
        \<not> intruder_detected b0 \<and>
        unrecognized_face_start_time b0 = Some since \<and>
        rnd (clock_guard inp - since) > GRACE_PERIOD_SECONDS \<and>
        face_matches inp \<noteq> [] \<and> \<not> has_match (face_matches inp) \<and>
        (\<forall>i \<in> set (post @ [x]). \<not> has_match (face_matches i))"
      by simp
    then show ?thesis by blast
  next
    case False
    from tick_starts_intrusion [OF False last snoc.prems(2)] obtain since
      where "unrecognized_face_start_time b = Some since"
        "rnd (clock_guard x - since) > GRACE_PERIOD_SECONDS"
        "face_matches x \<noteq> []" "\<not> has_match (face_matches x)"
      by blast
    with before False have "xs @ [x] = xs @ x # [] \<and> run_ticks rnd a0 xs = Inr (b, out1) \<and>
        \<not> intruder_detected b \<and>
        unrecognized_face_start_time b = Some since \<and>
        rnd (clock_guard x - since) > GRACE_PERIOD_SECONDS \<and>
        face_matches x \<noteq> [] \<and> \<not> has_match (face_matches x) \<and>
        (\<forall>i \<in> set []. \<not> has_match (face_matches i))"
      by simp
    then show ?thesis by blast
  qed
qed

text \<open>
  Claim C3 as stated (in every reachable state \<open>intruder_detected\<close> implies that
  \<open>unrecognized_face_start_time\<close> is set) fails: an unknown face at 0 and at 4 confirms the
  intrusion, and the empty frame at 5 clears the timer while \<open>intruder_detected\<close> stays true.
\<close>

theorem C3_cleared_timer_counterexample:
  "run_ticks exact (init_agent [''owner'']) [unknown_face_at 0, unknown_face_at 4, no_face_at 5] =
     Inr (\<lparr>known_face_names = [''owner''], intruder_detected = True,
           last_warning_time = Some 4, escalation_level = 1,
           unrecognized_face_start_time = None\<rparr>,
          speak MSG_LEVEL0)"
  by (simp add: tick_def init_agent_def unknown_face_at_def no_face_at_def
      handle_intruder_escalation_def GRACE_PERIOD_SECONDS_def exact_def)

text \<open>
  Claim C3, amended. In every state reached from the initial state in which
  \<open>intruder_detected\<close> is true, some earlier tick confirmed the intrusion: before that tick
  \<open>intruder_detected\<close> was false and the timer was set, the frame had faces and none matched,
  strictly more than \<open>GRACE_PERIOD_SECONDS\<close> had elapsed on the timer (the difference that
  the code computed exceeded it, hence, rounding being monotone and 3 a double, so did the
  elapsed time), and no tick since has seen a trusted face. The timer itself may have been
  cleared or restarted afterwards.
\<close>

theorem C3_intruder_was_confirmed:
  assumes "run_ticks rnd (init_agent names) ins = Inr (a, out)" and "intruder_detected a"
  shows "\<exists>pre inp post b out0 since.
           ins = pre @ inp # post \<and> run_ticks rnd (init_agent names) pre = Inr (b, out0) \<and>
           \<not> intruder_detected b \<and>
           unrecognized_face_start_time b = Some since \<and>
           rnd (clock_guard inp - since) > GRACE_PERIOD_SECONDS \<and>
           (float_rounding rnd \<longrightarrow> clock_guard inp - since > GRACE_PERIOD_SECONDS) \<and>
           face_matches inp \<noteq> [] \<and> \<not> has_match (face_matches inp) \<and>
           (\<forall>i \<in> set post. \<not> has_match (face_matches i))"
proof -
  have "\<not> intruder_detected (init_agent names)" by (simp add: init_agent_def)
  from intruder_has_confirming_tick [OF this assms] obtain pre inp post b out0 since
    where found: "ins = pre @ inp # post" "run_ticks rnd (init_agent names) pre = Inr (b, out0)"
      "\<not> intruder_detected b" "unrecognized_face_start_time b = Some since"
      "rnd (clock_guard inp - since) > GRACE_PERIOD_SECONDS"
      "face_matches inp \<noteq> []" "\<not> has_match (face_matches inp)"
      "\<forall>i \<in> set post. \<not> has_match (face_matches i)"
    by blast
  have "clock_guard inp - since > GRACE_PERIOD_SECONDS" if "float_rounding rnd"
    using float_rounding_above(1) [OF that, of "clock_guard inp - since"] found(5)
    by (simp add: GRACE_PERIOD_SECONDS_def)
  with found show ?thesis by blast
qed

theorem C3_intruder_was_confirmed_witness:
  "run_ticks exact (init_agent [''owner'']) [unknown_face_at 0, unknown_face_at 4, no_face_at 5] =
     Inr ((intruded 1 4)\<lparr>unrecognized_face_start_time := None\<rparr>, speak MSG_LEVEL0) \<and>
   intruder_detected ((intruded 1 4)\<lparr>unrecognized_face_start_time := None\<rparr>) \<and>
   (\<exists>pre inp post b out0 since.
      [unknown_face_at 0, unknown_face_at 4, no_face_at 5] = pre @ inp # post \<and>
      run_ticks exact (init_agent [''owner'']) pre = Inr (b, out0 :: nat effect list) \<and>
      unrecognized_face_start_time b = Some since \<and>
      clock_guard inp - since > GRACE_PERIOD_SECONDS) \<and>
   float_rounding exact"
proof -
  have r: "run_ticks exact (init_agent [''owner'']) [unknown_face_at 0, unknown_face_at 4, no_face_at 5] =
     Inr ((intruded 1 4)\<lparr>unrecognized_face_start_time := None\<rparr>, speak MSG_LEVEL0)"
    by (simp add: tick_def init_agent_def unknown_face_at_def no_face_at_def intruded_def
        handle_intruder_escalation_def GRACE_PERIOD_SECONDS_def exact_def)
  have i: "intruder_detected ((intruded 1 4)\<lparr>unrecognized_face_start_time := None\<rparr>)"
    by (simp add: intruded_def)
  from C3_intruder_was_confirmed [OF r i] r i float_rounding_exact show ?thesis by blast
qed

subsection \<open>The end of a guard cycle\<close>

lemma without_imshow_append: "without_imshow (xs @ ys) = without_imshow xs @ without_imshow ys"
  by (induction xs rule: without_imshow.induct) auto

lemma shown_append: "shown (xs @ ys) = shown xs @ shown ys"
  by (induction xs rule: shown.induct) auto

lemma speak_not_shown: "without_imshow (speak msg) = speak msg" "shown (speak msg) = []"
  by (simp_all add: speak_def)

lemma handle_not_shown:
  assumes "handle_intruder_escalation rnd a frm t = Inr (a', out)"
  shows "without_imshow out = out \<and> shown out = []"
  using assms
  by (auto simp: handle_intruder_escalation_def Let_def speak_not_shown without_imshow_append
      shown_append split: if_splits option.splits)

lemma scan_faces_not_shown:
  "scan_faces a fs = Inr (trusted, a', out) \<Longrightarrow> without_imshow out = out \<and> shown out = []"
  by (induction fs) (auto simp: Let_def reset_intruder_state_def split: if_splits)

lemma tick_not_shown:
  assumes "tick rnd a inp = Inr (a', d, out)"
  shows "without_imshow out = out \<and> shown out = []"
proof (cases "has_match (face_matches inp)")
  case True
  from scan_faces_match_cases [OF True, of a]
  consider "scan_faces a (face_matches inp) =
              (Inl IndexError :: py_error + bool \<times> SentinelAgent \<times> 'a effect list)"
    | out1 where "scan_faces a (face_matches inp) = Inr (True, cleared a, out1 :: 'a effect list)"
    by blast
  then show ?thesis
  proof cases
    case 1
    with assms show ?thesis by (simp add: tick_def)
  next
    case 2
    from tick_trusted [OF 2] assms have "out = out1" by simp
    with scan_faces_not_shown [OF 2] show ?thesis by simp
  qed
next
  case False
  show ?thesis
  proof (cases "face_matches inp = []")
    case True
    with assms show ?thesis by (auto simp: tick_empty)
  next
    case nonempty: False
    from assms tick_no_match_nonempty [OF nonempty False, where a = "a" and rnd = rnd]
    show ?thesis
      by (auto split: option.splits if_splits sum.splits dest: handle_not_shown)
  qed
qed

lemma guard_loop_is_run:
  "guard_loop rnd a camera = Inr (a', out) \<Longrightarrow>
     \<exists>out_t. run_ticks rnd a (processed camera) = Inr (a', out_t) \<and>
       without_imshow out = out_t \<and> shown out = map frame (processed camera)"
proof (induction camera arbitrary: a out)
  case Nil
  then show ?case by simp
next
  case (Cons c camera)
  obtain inp key_q where c: "c = (inp, key_q)" by (cases c) auto
  from Cons.prems c obtain a1 d out1 where step: "tick rnd a inp = Inr (a1, d, out1)"
    by (auto split: sum.splits)
  note plain = tick_not_shown [OF step]
  show ?case
  proof (cases key_q)
    case True
    with Cons.prems c step plain show ?thesis
      by (auto simp: without_imshow_append shown_append)
  next
    case False
    with Cons.prems c step obtain out2
      where rest: "guard_loop rnd a1 camera = Inr (a', out2)"
        and out: "out = out1 @ [Imshow (frame inp)] @ out2"
      by (auto split: sum.splits)
    from Cons.IH [OF rest] obtain out_t
      where "run_ticks rnd a1 (processed camera) = Inr (a', out_t)"
        "without_imshow out2 = out_t" "shown out2 = map frame (processed camera)"
      by blast
    with False c step plain out show ?thesis
      by (simp add: without_imshow_append shown_append)
  qed
qed

lemma start_guard_mode_is_run:
  assumes "start_guard_mode rnd a opened camera = Inr (a', out)"
  shows "\<exists>out'. run_ticks rnd a (if opened then processed camera else []) = Inr (a', out')"
proof (cases opened)
  case True
  with assms obtain out1 where "guard_loop rnd a camera = Inr (a', out1)"
    by (auto simp: start_guard_mode_def split: sum.splits)
  from guard_loop_is_run [OF this] True show ?thesis by auto
next
  case False
  with assms show ?thesis by (simp add: start_guard_mode_def)
qed

text \<open>
  Claim C8 as stated (the four attributes are back at their initial values when a guard cycle
  stops) fails: a cycle that sees an unknown face at 0 and at 4 and then loses the camera ends
  with \<open>intruder_detected\<close> true, level 1 and both times set.
\<close>

theorem C8_state_survives_cycle_counterexample:
  "start_guard_mode exact (init_agent [''owner'']) True
       [(unknown_face_at 0, False), (unknown_face_at 4, False)] =
     Inr (\<lparr>known_face_names = [''owner''], intruder_detected = True,
           last_warning_time = Some 4, escalation_level = 1,
           unrecognized_face_start_time = Some 0\<rparr>,
          speak ''Guard mode activated. I am now monitoring the room.'' @
          [Imshow 0] @ speak MSG_LEVEL0 @ [Imshow 0] @
          [Release, DestroyAllWindows] @ speak ''Guard mode deactivated.'')"
  by (simp add: start_guard_mode_def tick_def init_agent_def unknown_face_at_def
      handle_intruder_escalation_def GRACE_PERIOD_SECONDS_def exact_def)

text \<open>
  Claim C8, amended. When a guard cycle stops, the agent is in the state in which the last
  loop body left it. Apart from the display of each frame, the cycle produces the activation
  notice, the effects of its ticks, and then the release of the camera, the closing of the
  windows and the deactivation notice, which change no attribute; a cycle that cannot open
  the camera changes nothing and speaks the two notices of that case. A cycle started
  afterwards on the same agent goes on from the state the first one ended in, so two cycles
  in a row reach the state that the ticks of both reach in one run.
\<close>

theorem C8_cycle_keeps_state:
  assumes "start_guard_mode rnd a opened camera = Inr (a', out)"
  shows "(\<not> opened \<longrightarrow>
            a' = a \<and>
            out = speak ''Guard mode activated. I am now monitoring the room.'' @
                  speak ''Error: Could not access the webcam.'') \<and>
         (opened \<longrightarrow>
            (\<exists>out_t. run_ticks rnd a (processed camera) = Inr (a', out_t) \<and>
               without_imshow out =
                 speak ''Guard mode activated. I am now monitoring the room.'' @ out_t @
                 [Release, DestroyAllWindows] @ speak ''Guard mode deactivated.'' \<and>
               shown out = map frame (processed camera))) \<and>
         (\<forall>a'' out_next.
            start_guard_mode rnd a' opened_next camera_next = Inr (a'', out_next) \<longrightarrow>
            (\<exists>out'. run_ticks rnd a ((if opened then processed camera else []) @
                                 (if opened_next then processed camera_next else [])) =
                     Inr (a'', out')))"
proof -
  have closed: "a' = a \<and>
      out = speak ''Guard mode activated. I am now monitoring the room.'' @
            speak ''Error: Could not access the webcam.''"
    if "\<not> opened"
    using assms that by (auto simp: start_guard_mode_def)
  have running: "\<exists>out_t. run_ticks rnd a (processed camera) = Inr (a', out_t) \<and>
      without_imshow out =
        speak ''Guard mode activated. I am now monitoring the room.'' @ out_t @
        [Release, DestroyAllWindows] @ speak ''Guard mode deactivated.'' \<and>
      shown out = map frame (processed camera)"
    if opened
  proof -
    from assms that obtain out1
      where loop: "guard_loop rnd a camera = Inr (a', out1)"
        and out: "out = speak ''Guard mode activated. I am now monitoring the room.'' @ out1 @
                   [Release, DestroyAllWindows] @ speak ''Guard mode deactivated.''"
      by (auto simp: start_guard_mode_def split: sum.splits)
    from guard_loop_is_run [OF loop] obtain out_t
      where "run_ticks rnd a (processed camera) = Inr (a', out_t)"
        "without_imshow out1 = out_t" "shown out1 = map frame (processed camera)"
      by blast
    then show ?thesis
      by (simp add: out without_imshow_append shown_append speak_not_shown)
  qed
  from start_guard_mode_is_run [OF assms] obtain out1
    where first: "run_ticks rnd a (if opened then processed camera else []) = Inr (a', out1)"
    by blast
  have both: "\<exists>out'. run_ticks rnd a ((if opened then processed camera else []) @
                                 (if opened_next then processed camera_next else [])) = Inr (a'', out')"
    if "start_guard_mode rnd a' opened_next camera_next = Inr (a'', out_next)" for a'' out_next
  proof -
    from start_guard_mode_is_run [OF that] obtain out3
      where "run_ticks rnd a' (if opened_next then processed camera_next else []) = Inr (a'', out3)"
      by blast
    with first show ?thesis by (simp add: run_ticks_append)
  qed
  from closed running both show ?thesis by blast
qed

theorem C8_cycle_keeps_state_witness:
  "start_guard_mode exact (init_agent [''owner'']) True
       [(unknown_face_at 0, False), (unknown_face_at 4, True), (owner_face_at 5, False)] =
     Inr (intruded 1 4,
          speak ''Guard mode activated. I am now monitoring the room.'' @
          [Imshow 0] @ speak MSG_LEVEL0 @ [Imshow 0] @
          [Release, DestroyAllWindows] @ speak ''Guard mode deactivated.'') \<and>
   run_ticks exact (init_agent [''owner''])
       (processed [(unknown_face_at 0, False), (unknown_face_at 4, True), (owner_face_at 5, False)]) =
     Inr (intruded 1 4, speak MSG_LEVEL0 :: nat effect list) \<and>
   start_guard_mode exact (intruded 1 4) True [(unknown_face_at 15, False)] =
     Inr (intruded 2 15,
          speak ''Guard mode activated. I am now monitoring the room.'' @
          speak MSG_LEVEL1 @ [Imshow 0] @
          [Release, DestroyAllWindows] @ speak ''Guard mode deactivated.'') \<and>
   run_ticks exact (init_agent [''owner''])
       [unknown_face_at 0, unknown_face_at 4, unknown_face_at 15] =
     Inr (intruded 2 15, speak MSG_LEVEL0 @ speak MSG_LEVEL1 :: nat effect list)"
proof -
  have s: "start_guard_mode exact (init_agent [''owner'']) True
       [(unknown_face_at 0, False), (unknown_face_at 4, True), (owner_face_at 5, False)] =
     Inr (intruded 1 4,
          speak ''Guard mode activated. I am now monitoring the room.'' @
          [Imshow 0] @ speak MSG_LEVEL0 @ [Imshow 0] @
          [Release, DestroyAllWindows] @ speak ''Guard mode deactivated.'')"
    by (simp add: start_guard_mode_def tick_def init_agent_def unknown_face_at_def intruded_def
        handle_intruder_escalation_def GRACE_PERIOD_SECONDS_def exact_def)
  have r: "run_ticks exact (init_agent [''owner''])
       (processed [(unknown_face_at 0, False), (unknown_face_at 4, True), (owner_face_at 5, False)]) =
     Inr (intruded 1 4, speak MSG_LEVEL0 :: nat effect list)"
    by (simp add: tick_def init_agent_def unknown_face_at_def intruded_def
        handle_intruder_escalation_def GRACE_PERIOD_SECONDS_def exact_def)
  have n: "start_guard_mode exact (intruded 1 4) True [(unknown_face_at 15, False)] =
     Inr (intruded 2 15,
          speak ''Guard mode activated. I am now monitoring the room.'' @
          speak MSG_LEVEL1 @ [Imshow 0] @
          [Release, DestroyAllWindows] @ speak ''Guard mode deactivated.'')"
    by (simp add: start_guard_mode_def tick_def unknown_face_at_def intruded_def
        handle_intruder_escalation_def GRACE_PERIOD_SECONDS_def exact_def)
  have b: "run_ticks exact (init_agent [''owner''])
       [unknown_face_at 0, unknown_face_at 4, unknown_face_at 15] =
     Inr (intruded 2 15, speak MSG_LEVEL0 @ speak MSG_LEVEL1 :: nat effect list)"
    by (simp add: tick_def init_agent_def unknown_face_at_def intruded_def
        handle_intruder_escalation_def GRACE_PERIOD_SECONDS_def exact_def)
  from C8_cycle_keeps_state [OF s, where opened_next = True
      and camera_next = "[(unknown_face_at 15, False)]"] s r n b
  show ?thesis by blast
qed

subsection \<open>An intruder who steps out of view\<close>

lemma warnings_differ_from_greeting:
  "MSG_LEVEL0 \<noteq> MSG_LEVEL1" "MSG_LEVEL0 \<noteq> MSG_LEVEL2" "MSG_LEVEL0 \<noteq> MSG_LEVEL3"
  by (simp_all add: MSG_LEVEL0_def MSG_LEVEL1_def MSG_LEVEL2_def MSG_LEVEL3_def)

lemma handle_above_zero:
  assumes "0 < escalation_level a" and "last_warning_time a = Some w"
  shows "\<exists>a' out. handle_intruder_escalation rnd a frm t = Inr (a', out) \<and>
           escalation_level a \<le> escalation_level a' \<and>
           escalation_level a' \<le> escalation_level a + 1 \<and>
           MSG_LEVEL0 \<notin> set (says out)"
  using assms warnings_differ_from_greeting
  by (simp add: handle_intruder_escalation_def Let_def says_speak says_append)

text \<open>
  Claim C10. During an intrusion at a level above 0, a frame without faces followed by a frame
  with an unknown face produces nothing and restarts the timer at the second frame. A later
  unknown face is pending and runs no escalation as long as the difference to that restart,
  as line 140 computes it, is not above \<open>GRACE_PERIOD_SECONDS\<close>, and so whenever the time since
  the restart is \<open>GRACE_PERIOD_SECONDS\<close> or less. Once the computed difference is above
  \<open>GRACE_PERIOD_SECONDS\<close> the tick is the escalation call on the retained level: the level
  stays or goes up by one, and the greeting of level 0 is not spoken again.
\<close>

theorem C10_fresh_grace_then_resume:
  assumes "intruder_detected a" and "0 < escalation_level a" and "last_warning_time a = Some w"
    and "face_matches gone = []"
    and "face_matches back \<noteq> []" and "\<not> has_match (face_matches back)"
    and "face_matches later \<noteq> []" and "\<not> has_match (face_matches later)"
  shows "\<exists>a2. a2 = a\<lparr>unrecognized_face_start_time := Some (clock_guard back)\<rparr> \<and>
           run_ticks rnd a [gone, back] = Inr (a2, []) \<and>
           (rnd (clock_guard later - clock_guard back) \<le> GRACE_PERIOD_SECONDS \<longrightarrow>
              tick rnd a2 later = Inr (a2, UnknownPending, [])) \<and>
           (float_rounding rnd \<longrightarrow>
              clock_guard later - clock_guard back \<le> GRACE_PERIOD_SECONDS \<longrightarrow>
              tick rnd a2 later = Inr (a2, UnknownPending, [])) \<and>
           (rnd (clock_guard later - clock_guard back) > GRACE_PERIOD_SECONDS \<longrightarrow>
              (\<exists>a3 out. tick rnd a2 later = Inr (a3, IntruderConfirmed, out) \<and>
                 handle_intruder_escalation rnd a2 (frame later) (clock_escalation later) =
                   Inr (a3, out) \<and>
                 escalation_level a \<le> escalation_level a3 \<and>
                 escalation_level a3 \<le> escalation_level a + 1 \<and>
                 MSG_LEVEL0 \<notin> set (says out)))"
proof -
  let ?a1 = "a\<lparr>unrecognized_face_start_time := None\<rparr>"
  let ?a2 = "a\<lparr>unrecognized_face_start_time := Some (clock_guard back)\<rparr>"
  have t1: "tick rnd a gone = Inr (?a1, NoFaces, [])"
    by (rule tick_empty [OF assms(4)])
  have t2: "tick rnd ?a1 back = Inr (?a2, UnknownPending, [])"
    using tick_no_match_nonempty [OF assms(5,6), where a = "?a1" and rnd = rnd] by simp
  have run: "run_ticks rnd a [gone, back] = Inr (?a2, [])"
    using t1 t2 by simp
  have same: "?a2\<lparr>intruder_detected := True\<rparr> = ?a2"
    using assms(1) by simp
  have t3: "tick rnd ?a2 later =
      (if rnd (clock_guard later - clock_guard back) > GRACE_PERIOD_SECONDS then
         (case handle_intruder_escalation rnd ?a2 (frame later) (clock_escalation later) of
            Inl e \<Rightarrow> Inl e
          | Inr (a3, out) \<Rightarrow> Inr (a3, IntruderConfirmed, out))
       else Inr (?a2, UnknownPending, []))"
    using tick_no_match_nonempty [OF assms(7,8), where a = "?a2" and rnd = rnd] same by simp
  have lvl: "0 < escalation_level ?a2" and lw: "last_warning_time ?a2 = Some w"
    using assms(2,3) by simp_all
  from handle_above_zero [OF lvl lw, where frm = "frame later" and t = "clock_escalation later" and rnd = rnd]
  obtain a3 out
    where h: "handle_intruder_escalation rnd ?a2 (frame later) (clock_escalation later) = Inr (a3, out)"
      and b: "escalation_level a \<le> escalation_level a3"
        "escalation_level a3 \<le> escalation_level a + 1"
        "MSG_LEVEL0 \<notin> set (says out)"
    by auto
  have pending: "rnd (clock_guard later - clock_guard back) \<le> GRACE_PERIOD_SECONDS \<longrightarrow>
      tick rnd ?a2 later = Inr (?a2, UnknownPending, [])"
    using t3 by simp
  have "rnd (clock_guard later - clock_guard back) \<le> GRACE_PERIOD_SECONDS"
    if "float_rounding rnd" and "clock_guard later - clock_guard back \<le> GRACE_PERIOD_SECONDS"
    using float_rounding_below [OF that(1), of "clock_guard later - clock_guard back"] that(2)
    by (simp add: GRACE_PERIOD_SECONDS_def)
  with pending have waiting: "float_rounding rnd \<longrightarrow>
      clock_guard later - clock_guard back \<le> GRACE_PERIOD_SECONDS \<longrightarrow>
      tick rnd ?a2 later = Inr (?a2, UnknownPending, [])"
    by blast
  have resumed: "rnd (clock_guard later - clock_guard back) > GRACE_PERIOD_SECONDS \<longrightarrow>
      (\<exists>a3 out. tick rnd ?a2 later = Inr (a3, IntruderConfirmed, out) \<and>
         handle_intruder_escalation rnd ?a2 (frame later) (clock_escalation later) = Inr (a3, out) \<and>
         escalation_level a \<le> escalation_level a3 \<and>
         escalation_level a3 \<le> escalation_level a + 1 \<and>
         MSG_LEVEL0 \<notin> set (says out))"
    using t3 h b by auto
  from run pending waiting resumed show ?thesis by blast
qed

theorem C10_fresh_grace_then_resume_witness:
  "intruder_detected (intruded 2 15) \<and> 0 < escalation_level (intruded 2 15) \<and>
   run_ticks exact (intruded 2 15) [no_face_at 20, unknown_face_at 21] =
     Inr ((intruded 2 15)\<lparr>unrecognized_face_start_time := Some 21\<rparr>, []) \<and>
   tick exact ((intruded 2 15)\<lparr>unrecognized_face_start_time := Some 21\<rparr>) (unknown_face_at 24) =
     Inr ((intruded 2 15)\<lparr>unrecognized_face_start_time := Some 21\<rparr>, UnknownPending, []) \<and>
   tick exact ((intruded 2 15)\<lparr>unrecognized_face_start_time := Some 21\<rparr>) (unknown_face_at 30) =
     Inr ((intruded 3 30)\<lparr>unrecognized_face_start_time := Some 21\<rparr>, IntruderConfirmed,
          speak MSG_LEVEL2 @
          [Imwrite (snapshot_path 30) 0,
           Print (''Intruder snapshot saved to '' @ snapshot_path 30)])"
proof -
  have i: "intruder_detected (intruded 2 15)" and l: "0 < escalation_level (intruded 2 15)"
    and w: "last_warning_time (intruded 2 15) = Some 15"
    by (simp_all add: intruded_def)
  have g: "face_matches (no_face_at 20) = []" by (simp add: no_face_at_def)
  have b: "face_matches (unknown_face_at 21) \<noteq> []"
      "\<not> has_match (face_matches (unknown_face_at 21))"
    by (simp_all add: unknown_face_at_def has_match_def)
  have n: "face_matches (unknown_face_at 24) \<noteq> []"
      "\<not> has_match (face_matches (unknown_face_at 24))"
    by (simp_all add: unknown_face_at_def has_match_def)
  have c: "clock_guard (unknown_face_at 24) - clock_guard (unknown_face_at 21)
            \<le> GRACE_PERIOD_SECONDS"
    by (simp add: unknown_face_at_def GRACE_PERIOD_SECONDS_def exact_def)
  have k: "clock_guard (unknown_face_at 21) = 21" by (simp add: unknown_face_at_def)
  have r: "tick exact ((intruded 2 15)\<lparr>unrecognized_face_start_time := Some 21\<rparr>) (unknown_face_at 30) =
     Inr ((intruded 3 30)\<lparr>unrecognized_face_start_time := Some 21\<rparr>, IntruderConfirmed,
          speak MSG_LEVEL2 @
          [Imwrite (snapshot_path 30) 0,
           Print (''Intruder snapshot saved to '' @ snapshot_path 30)])"
    by (simp add: tick_def unknown_face_at_def intruded_def handle_intruder_escalation_def
        GRACE_PERIOD_SECONDS_def exact_def)
  from C10_fresh_grace_then_resume [OF i l w g b n, where rnd = exact] c float_rounding_exact
  have "run_ticks exact (intruded 2 15) [no_face_at 20, unknown_face_at 21] =
     Inr ((intruded 2 15)\<lparr>unrecognized_face_start_time := Some 21\<rparr>, []) \<and>
   tick exact ((intruded 2 15)\<lparr>unrecognized_face_start_time := Some 21\<rparr>) (unknown_face_at 24) =
     Inr ((intruded 2 15)\<lparr>unrecognized_face_start_time := Some 21\<rparr>, UnknownPending, [])"
    unfolding k by blast
  with i l r show ?thesis by blast
qed

end
